theory Spec2Isabelle
  imports Main "HOL-Library.AList" "HOL-Library.Char_ord" "HOL-Library.List_Lexorder"
begin

section \<open>Python strings\<close>

text \<open>
  A Python \<open>str\<close> is modelled as a \<open>string\<close>; a character is a code point below 256.
  On that range \<open>str.isspace\<close> holds for U+0009..U+000D, U+001C..U+0020, U+0085 and
  U+00A0, and the regular-expression class \<open>\d\<close> is the ten ASCII digits.
\<close>

definition py_isspace :: "char \<Rightarrow> bool" where
  "py_isspace c =
     (let n = (of_char c :: nat)
      in (9 \<le> n \<and> n \<le> 13) \<or> (28 \<le> n \<and> n \<le> 32) \<or> n = 133 \<or> n = 160)"

definition lstrip :: "string \<Rightarrow> string" where
  "lstrip s = dropWhile py_isspace s"

definition rstrip :: "string \<Rightarrow> string" where
  "rstrip s = rev (dropWhile py_isspace (rev s))"

definition strip :: "string \<Rightarrow> string" where
  "strip s = lstrip (rstrip s)"

text \<open>\<open>sep.join(xs)\<close>\<close>

fun py_join :: "string \<Rightarrow> string list \<Rightarrow> string" where
  "py_join sep [] = []"
| "py_join sep [x] = x"
| "py_join sep (x # y # ys) = x @ sep @ py_join sep (y # ys)"

fun starts_with :: "string \<Rightarrow> string \<Rightarrow> bool" where
  "starts_with [] s = True"
| "starts_with (p # ps) [] = False"
| "starts_with (p # ps) (c # cs) = (p = c \<and> starts_with ps cs)"

text \<open>\<open>sub in s\<close> on strings\<close>

fun py_contains :: "string \<Rightarrow> string \<Rightarrow> bool" where
  "py_contains sub [] = (sub = [])"
| "py_contains sub (c # cs) = (starts_with sub (c # cs) \<or> py_contains sub cs)"

definition py_endswith :: "string \<Rightarrow> string \<Rightarrow> bool" where
  "py_endswith s suf = (length suf \<le> length s \<and> drop (length s - length suf) s = suf)"

definition is_digit :: "char \<Rightarrow> bool" where
  "is_digit c = (let n = (of_char c :: nat) in 48 \<le> n \<and> n \<le> 57)"

text \<open>
  \<open>re.search(lit + r'(\d+)', s)\<close> for a literal \<open>lit\<close>: the leftmost position where
  \<open>lit\<close> is followed by a digit, and group 1, the longest run of digits there.
\<close>

definition match_at :: "string \<Rightarrow> string \<Rightarrow> string option" where
  "match_at lit s =
     (if starts_with lit s
      then (let ds = takeWhile is_digit (drop (length lit) s)
            in if ds \<noteq> [] then Some ds else None)
      else None)"

fun re_search_digits :: "string \<Rightarrow> string \<Rightarrow> string option" where
  "re_search_digits lit [] = match_at lit []"
| "re_search_digits lit (c # cs) =
     (case match_at lit (c # cs) of
        Some ds \<Rightarrow> Some ds
      | None \<Rightarrow> re_search_digits lit cs)"

datatype py_error = ValueError | KeyError

text \<open>
  \<open>int(s)\<close>, as far as the program uses it: on a non-empty run of at most 4300 digits
  it is the decimal value. A longer run raises \<open>ValueError\<close>: CPython limits the
  conversion to \<open>sys.get_int_max_str_digits()\<close> digits, 4300 unless reconfigured, leading
  zeros counted. Every other string is taken to raise.
\<close>

definition int_max_str_digits :: nat where
  "int_max_str_digits = 4300"

definition digit_val :: "char \<Rightarrow> int" where
  "digit_val c = int (of_char c) - 48"

definition decimal_value :: "string \<Rightarrow> int" where
  "decimal_value s = foldl (\<lambda>a c. 10 * a + digit_val c) 0 s"

definition py_int :: "string \<Rightarrow> py_error + int" where
  "py_int s =
     (if s \<noteq> [] \<and> list_all is_digit s \<and> length s \<le> int_max_str_digits
      then Inr (decimal_value s)
      else Inl ValueError)"

text \<open>\<open>str(n)\<close> on integers\<close>

definition digit_char :: "nat \<Rightarrow> char" where
  "digit_char d = char_of (48 + d)"

fun str_nat :: "nat \<Rightarrow> string" where
  "str_nat n = (if n < 10 then [digit_char n] else str_nat (n div 10) @ [digit_char (n mod 10)])"

definition py_str :: "int \<Rightarrow> string" where
  "py_str i = (if i < 0 then CHR ''-'' # str_nat (nat (- i)) else str_nat (nat i))"

section \<open>The parsed document\<close>

text \<open>
  The tree the parser hands over: a text leaf; a comment leaf, which stands for a
  comment and for every other special string (doctype, declaration, processing
  instruction), all of them strings whose \<open>name\<close> is \<open>None\<close> and which \<open>get_text()\<close>
  skips; or a tag with its name, its string-valued attributes, the tokens of its
  \<open>class\<close> attribute (none when the attribute is absent) and its children in document
  order.
\<close>

datatype node =
    Text string
  | Comment string
  | Element (tag: string) (attrs: "(string \<times> string) list") (classes: "string list")
      (children: "node list")

text \<open>\<open>tag.get(key, default)\<close> on a string-valued attribute\<close>

fun attr_get :: "node \<Rightarrow> string \<Rightarrow> string \<Rightarrow> string" where
  "attr_get (Element n a cl cs) k d = (case map_of a k of Some v \<Rightarrow> v | None \<Rightarrow> d)"
| "attr_get (Text s) k d = d"
| "attr_get (Comment s) k d = d"

text \<open>The descendants of a node in document order, the node itself excluded.\<close>

fun descendants :: "node \<Rightarrow> node list" where
  "descendants (Text s) = []"
| "descendants (Comment s) = []"
| "descendants (Element n a cl cs) = concat (map (\<lambda>c. c # descendants c) cs)"

fun is_tag :: "string \<Rightarrow> node \<Rightarrow> bool" where
  "is_tag nm (Text s) = False"
| "is_tag nm (Comment s) = False"
| "is_tag nm (Element n a cl cs) = (n = nm)"

fun has_class :: "string \<Rightarrow> node \<Rightarrow> bool" where
  "has_class c (Text s) = False"
| "has_class c (Comment s) = False"
| "has_class c (Element n a cl cs) = (c \<in> set cl)"

text \<open>\<open>element.find(nm)\<close> and \<open>element.find(nm, class_=c)\<close>\<close>

definition find_tag :: "string \<Rightarrow> node \<Rightarrow> node option" where
  "find_tag nm e = List.find (is_tag nm) (descendants e)"

definition find_class :: "string \<Rightarrow> string \<Rightarrow> node \<Rightarrow> node option" where
  "find_class nm c e = List.find (\<lambda>d. is_tag nm d \<and> has_class c d) (descendants e)"

text \<open>
  \<open>tag.get_text()\<close>: the text leaves below the tag, concatenated; comment leaves are
  left out.
\<close>

fun text_of :: "node \<Rightarrow> string" where
  "text_of (Text s) = s"
| "text_of (Comment s) = []"
| "text_of (Element n a cl cs) = []"

definition get_text :: "node \<Rightarrow> string" where
  "get_text e = concat (map text_of (descendants e))"

section \<open>parse\_html.py\<close>

type_synonym footnote_refs = "(int \<times> string) list"

text \<open>
  The footnote registry is a Python dict keyed by integers: an association list in
  insertion order, written with \<^const>\<open>AList.update\<close>.
\<close>

fun get_text_content :: "node \<Rightarrow> footnote_refs \<Rightarrow> int \<Rightarrow> string" where
  "get_text_content (Text s) footnote_refs counter = strip s"
| "get_text_content (Comment s) footnote_refs counter = strip s"
| "get_text_content (Element n a cl cs) footnote_refs counter =
     concat (map (\<lambda>child.
       case child of
         Text s \<Rightarrow> s
       | Comment s \<Rightarrow> s
       | Element cn ca ccl ccs \<Rightarrow>
           if cn = ''a'' then
             (if ''footnote-anchor'' \<in> set ccl then
                (case re_search_digits ''#footnote-'' (attr_get child ''href'' '''') of
                   Some footnote_num \<Rightarrow> ''[^'' @ footnote_num @ '']''
                 | None \<Rightarrow> [])
              else
                (let href = attr_get child ''href'' ''''; text = get_text child
                 in if href \<noteq> [] \<and> text \<noteq> [] then ''['' @ text @ '']('' @ href @ '')''
                    else text))
           else if cn = ''em'' then ''*'' @ get_text_content child footnote_refs counter @ ''*''
           else if cn = ''strong'' then
             ''**'' @ get_text_content child footnote_refs counter @ ''**''
           else if cn = ''code'' then ''`'' @ get_text child @ ''`''
           else get_text_content child footnote_refs counter) cs)"

definition handle_image :: "node \<Rightarrow> string option" where
  "handle_image element =
     (case find_tag ''img'' element of
        None \<Rightarrow> None
      | Some img \<Rightarrow>
          (let alt_text = attr_get img ''alt'' '''';
               src0 = attr_get img ''src'' '''';
               src = (case find_class ''a'' ''image-link'' element of
                        None \<Rightarrow> src0
                      | Some parent_link \<Rightarrow>
                          (let href = attr_get parent_link ''href'' ''''
                           in if href \<noteq> [] \<and> py_contains ''substackcdn.com'' href then href
                              else if py_contains ''bucketeer'' src0 \<and> href \<noteq> [] then href
                              else src0))
           in case find_tag ''figcaption'' element of
                Some caption \<Rightarrow>
                  (case find_tag ''a'' caption of
                     Some caption_link \<Rightarrow>
                       Some (''!['' @ alt_text @ '']('' @ src @ '')'' @ [CHR 0x0A] @ ''*['' @
                             get_text caption_link @ '']('' @
                             attr_get caption_link ''href'' '''' @ '')*'')
                   | None \<Rightarrow>
                       Some (''!['' @ alt_text @ '']('' @ src @ '')'' @ [CHR 0x0A] @ ''*'' @
                             get_text caption @ ''*''))
              | None \<Rightarrow> Some (''!['' @ alt_text @ '']('' @ src @ '')'')))"

definition handle_footnote_definition ::
  "node \<Rightarrow> footnote_refs \<Rightarrow> int \<Rightarrow> py_error + (string option \<times> footnote_refs)" where
  "handle_footnote_definition element footnote_refs counter =
     (case find_class ''a'' ''footnote-number'' element of
        None \<Rightarrow> Inr (None, footnote_refs)
      | Some footnote_num_elem \<Rightarrow>
          (case re_search_digits ''footnote-anchor-'' (attr_get footnote_num_elem ''href'' '''') of
             None \<Rightarrow> Inr (None, footnote_refs)
           | Some g \<Rightarrow>
               (case py_int g of
                  Inl err \<Rightarrow> Inl err
                | Inr footnote_num \<Rightarrow>
                    (case find_class ''div'' ''footnote-content'' element of
                       None \<Rightarrow> Inr (None, footnote_refs)
                     | Some content_elem \<Rightarrow>
                         Inr (None,
                              AList.update footnote_num
                                (strip (get_text_content content_elem [] counter))
                                footnote_refs)))))"

text \<open>
  A result is \<open>None\<close> or a string; \<open>if result:\<close> holds for a string that is not empty.
\<close>

fun process_element ::
    "node \<Rightarrow> footnote_refs \<Rightarrow> int \<Rightarrow> py_error + (string option \<times> footnote_refs)"
  and process_div_children ::
    "node list \<Rightarrow> footnote_refs \<Rightarrow> int \<Rightarrow> string list \<Rightarrow> py_error + (string list \<times> footnote_refs)"
where
  "process_element (Text s) footnote_refs counter =
     (let text = strip s in Inr (if text \<noteq> [] then Some text else None, footnote_refs))"
| "process_element (Comment s) footnote_refs counter =
     (let text = strip s in Inr (if text \<noteq> [] then Some text else None, footnote_refs))"
| "process_element (Element n a cl cs) footnote_refs counter =
     (if n = ''h1'' then
        Inr (Some (''# '' @ get_text_content (Element n a cl cs) footnote_refs counter),
             footnote_refs)
      else if n = ''h2'' then
        Inr (Some (''## '' @ get_text_content (Element n a cl cs) footnote_refs counter),
             footnote_refs)
      else if n = ''h3'' then
        Inr (Some (''### '' @ get_text_content (Element n a cl cs) footnote_refs counter),
             footnote_refs)
      else if n = ''p'' then
        Inr (Some (get_text_content (Element n a cl cs) footnote_refs counter), footnote_refs)
      else if n = ''blockquote'' then
        Inr (Some (py_join [CHR 0x0A]
                     (map (\<lambda>child. ''> '' @ get_text_content child footnote_refs counter)
                        (filter (is_tag ''p'') cs))),
             footnote_refs)
      else if n = ''div'' then
        (if ''captioned-image-container'' \<in> set cl then
           Inr (handle_image (Element n a cl cs), footnote_refs)
         else if ''footnote'' \<in> set cl then
           handle_footnote_definition (Element n a cl cs) footnote_refs counter
         else
           (case process_div_children cs footnote_refs counter [] of
              Inl err \<Rightarrow> Inl err
            | Inr (results, refs') \<Rightarrow>
                Inr (if results \<noteq> [] then Some (py_join [CHR 0x0A, CHR 0x0A] results) else None,
                     refs')))
      else Inr (None, footnote_refs))"
| "process_div_children [] footnote_refs counter results = Inr (results, footnote_refs)"
| "process_div_children (Text s # rest) footnote_refs counter results =
     process_div_children rest footnote_refs counter results"
| "process_div_children (Comment s # rest) footnote_refs counter results =
     process_div_children rest footnote_refs counter results"
| "process_div_children (Element n a cl cs # rest) footnote_refs counter results =
     (if n \<noteq> [] then
        (case process_element (Element n a cl cs) footnote_refs counter of
           Inl err \<Rightarrow> Inl err
         | Inr (result, refs') \<Rightarrow>
             (case result of
                Some r \<Rightarrow>
                  if r \<noteq> [] then process_div_children rest refs' counter (results @ [r])
                  else process_div_children rest refs' counter results
              | None \<Rightarrow> process_div_children rest refs' counter results))
      else process_div_children rest footnote_refs counter results)"

text \<open>
  The loop over the top-level children, on the state
  \<open>(markdown_lines, footnote_references, footnote_counter)\<close>.
\<close>

fun process_top ::
  "node list \<Rightarrow> string list \<times> footnote_refs \<times> int \<Rightarrow>
   py_error + (string list \<times> footnote_refs \<times> int)" where
  "process_top [] st = Inr st"
| "process_top (Text s # rest) st = process_top rest st"
| "process_top (Comment s # rest) st = process_top rest st"
| "process_top (Element n a cl cs # rest) (markdown_lines, footnote_references, footnote_counter) =
     (case process_element (Element n a cl cs) footnote_references footnote_counter of
        Inl err \<Rightarrow> Inl err
      | Inr (result, refs') \<Rightarrow>
          (case result of
             Some r \<Rightarrow>
               if r \<noteq> [] then
                 process_top rest (markdown_lines @ [r], refs', int (length refs') + 1)
               else process_top rest (markdown_lines, refs', footnote_counter)
           | None \<Rightarrow> process_top rest (markdown_lines, refs', footnote_counter)))"

text \<open>The title header: \<open>if title:\<close> is false for \<open>None\<close> and for the empty string.\<close>

definition header_lines :: "string option \<Rightarrow> string option \<Rightarrow> string list" where
  "header_lines title subtitle =
     (case title of
        None \<Rightarrow> []
      | Some t \<Rightarrow>
          if t \<noteq> [] then
            [''# '' @ t] @
            (case subtitle of
               None \<Rightarrow> []
             | Some s \<Rightarrow> if s \<noteq> [] then [''*'' @ s @ ''*''] else []) @
            [''---'']
          else [])"

text \<open>\<open>footnote_references[ref_num]\<close>\<close>

definition py_getitem :: "footnote_refs \<Rightarrow> int \<Rightarrow> py_error + string" where
  "py_getitem d k = (case map_of d k of None \<Rightarrow> Inl KeyError | Some v \<Rightarrow> Inr v)"

definition footnote_line :: "int \<Rightarrow> string \<Rightarrow> string" where
  "footnote_line ref_num content = ''[^'' @ py_str ref_num @ '']: '' @ content"

fun footnote_entries :: "footnote_refs \<Rightarrow> int list \<Rightarrow> py_error + string list" where
  "footnote_entries d [] = Inr []"
| "footnote_entries d (ref_num # ks) =
     (case py_getitem d ref_num of
        Inl err \<Rightarrow> Inl err
      | Inr v \<Rightarrow>
          (case footnote_entries d ks of
             Inl err \<Rightarrow> Inl err
           | Inr ls \<Rightarrow> Inr (footnote_line ref_num v # ls)))"

definition footnote_block :: "footnote_refs \<Rightarrow> py_error + string list" where
  "footnote_block footnote_references =
     (if footnote_references \<noteq> [] then
        (case footnote_entries footnote_references (sort (map fst footnote_references)) of
           Inl err \<Rightarrow> Inl err
         | Inr ls \<Rightarrow> Inr (([CHR 0x0A] @ ''---'' @ [CHR 0x0A]) # ls))
      else Inr [])"

text \<open>
  \<open>convert_html_to_markdown\<close>, from the parsed document's top-level children on.
\<close>

definition convert_html_to_markdown ::
  "node list \<Rightarrow> string option \<Rightarrow> string option \<Rightarrow> py_error + string" where
  "convert_html_to_markdown soup title subtitle =
     (case process_top soup (header_lines title subtitle, [], 1) of
        Inl err \<Rightarrow> Inl err
      | Inr (markdown_lines, footnote_references, footnote_counter) \<Rightarrow>
          (case footnote_block footnote_references of
             Inl err \<Rightarrow> Inl err
           | Inr fl \<Rightarrow> Inr (strip (py_join [CHR 0x0A, CHR 0x0A] (markdown_lines @ fl)))))"

section \<open>The footnote handler's effect and the footnote block, stated directly\<close>

text \<open>
  The numeral of a footnote-definition division: the digits after \<open>footnote-anchor-\<close> in the
  target of its first link marked \<open>footnote-number\<close>, read as a decimal number.
\<close>

definition footnote_digits :: "node \<Rightarrow> string option" where
  "footnote_digits element =
     (case find_class ''a'' ''footnote-number'' element of
        None \<Rightarrow> None
      | Some link \<Rightarrow> re_search_digits ''footnote-anchor-'' (attr_get link ''href'' ''''))"

definition footnote_numeral :: "node \<Rightarrow> int option" where
  "footnote_numeral element = map_option decimal_value (footnote_digits element)"

text \<open>The numeral has more digits than \<open>int()\<close> converts.\<close>

definition numeral_too_long :: "node \<Rightarrow> bool" where
  "numeral_too_long element =
     (case footnote_digits element of
        None \<Rightarrow> False
      | Some ds \<Rightarrow> length ds > int_max_str_digits)"

text \<open>
  The transducer hands a footnote-definition division with such a numeral to the
  footnote handler: the node is one itself, or it is a plain division with a child
  that does.
\<close>

fun raises_value_error :: "node \<Rightarrow> bool" where
  "raises_value_error (Text s) = False"
| "raises_value_error (Comment s) = False"
| "raises_value_error (Element n a cl cs) =
     (n = ''div'' \<and> ''captioned-image-container'' \<notin> set cl \<and>
      (if ''footnote'' \<in> set cl then numeral_too_long (Element n a cl cs)
       else (\<exists>child \<in> set cs. raises_value_error child)))"

text \<open>
  The registry after a footnote-definition division: with a numeral and a content
  sub-element, the trimmed inline rendering of the content is stored under the numeral;
  otherwise the registry is unchanged.
\<close>

definition footnote_store :: "node \<Rightarrow> footnote_refs \<Rightarrow> int \<Rightarrow> footnote_refs" where
  "footnote_store element registry counter =
     (case footnote_numeral element of
        None \<Rightarrow> registry
      | Some ref_num \<Rightarrow>
          (case find_class ''div'' ''footnote-content'' element of
             None \<Rightarrow> registry
           | Some content \<Rightarrow>
               AList.update ref_num (strip (get_text_content content [] counter)) registry))"

text \<open>
  The lines of the footnote block: the registry's entries in ascending order of their
  numerals, one \<open>[^n]: content\<close> each.
\<close>

definition footnote_lines :: "footnote_refs \<Rightarrow> string list" where
  "footnote_lines registry = map (\<lambda>(k, v). footnote_line k v) (sort_key fst registry)"

definition footer_lines :: "footnote_refs \<Rightarrow> string list" where
  "footer_lines registry =
     (if registry = [] then []
      else ([CHR 0x0A] @ ''---'' @ [CHR 0x0A]) # footnote_lines registry)"

text \<open>
  What every registry built by a conversion satisfies: no numeral is listed twice, and a
  stored content is trimmed, so it does not end in white space.
\<close>

definition registry_ok :: "footnote_refs \<Rightarrow> bool" where
  "registry_ok r = (distinct (map fst r) \<and> (\<forall>(k, v) \<in> set r. v = [] \<or> \<not> py_isspace (last v)))"


section \<open>batch\_by\_quarter.py\<close>

text \<open>
  Of a parsed \<open>datetime\<close> the batcher reads the year and the month. The parser
  \<open>datetime.fromisoformat\<close> belongs to the standard library; the batcher takes it as a
  parameter.
\<close>

record datetime =
  year :: int
  month :: int

type_synonym iso_parser = "string \<Rightarrow> py_error + datetime"

text \<open>\<open>date_string.replace('Z', '+00:00')\<close>\<close>

definition replace_Z :: "string \<Rightarrow> string" where
  "replace_Z s = concat (map (\<lambda>c. if c = CHR ''Z'' then ''+00:00'' else [c]) s)"

definition get_quarter :: "iso_parser \<Rightarrow> string \<Rightarrow> py_error + string" where
  "get_quarter fromisoformat date_string =
     (case fromisoformat (replace_Z date_string) of
        Inl err \<Rightarrow> Inl err
      | Inr date \<Rightarrow>
          (let quarter = (month date - 1) div 3 + 1
           in Inr (py_str (year date) @ ''-Q'' @ py_str quarter)))"

record post =
  post_id :: string
  post_date :: string
  title :: string

text \<open>
  \<open>posts_by_quarter\<close> is a \<open>defaultdict(list)\<close>: an association list from the quarter
  key to the rows appended so far, in insertion order.
\<close>

fun group_rows ::
  "iso_parser \<Rightarrow> post list \<Rightarrow> (string \<times> post list) list \<Rightarrow>
   py_error + (string \<times> post list) list" where
  "group_rows fromisoformat [] posts_by_quarter = Inr posts_by_quarter"
| "group_rows fromisoformat (row # rows) posts_by_quarter =
     (case get_quarter fromisoformat (post_date row) of
        Inl err \<Rightarrow> Inl err
      | Inr quarter \<Rightarrow>
          group_rows fromisoformat rows
            (AList.update quarter
               ((case map_of posts_by_quarter quarter of None \<Rightarrow> [] | Some ps \<Rightarrow> ps) @ [row])
               posts_by_quarter))"

definition load_posts_by_quarter ::
  "iso_parser \<Rightarrow> post list \<Rightarrow> py_error + (string \<times> post list) list" where
  "load_posts_by_quarter fromisoformat rows =
     (case group_rows fromisoformat rows [] of
        Inl err \<Rightarrow> Inl err
      | Inr posts_by_quarter \<Rightarrow>
          Inr (map (\<lambda>(quarter, ps). (quarter, sort_key post_date ps)) posts_by_quarter))"

text \<open>
  The Markdown directory: a path that is not listed does not exist; a listed file is
  readable with its content, or reading it raises.
\<close>

datatype md_file = Readable string | Unreadable

definition separator_line :: string where
  "separator_line = replicate 80 (CHR ''='')"

definition post_separator :: string where
  "post_separator = [CHR 0x0A, CHR 0x0A] @ separator_line @ [CHR 0x0A, CHR 0x0A]"

text \<open>
  The loop \<open>for i, post_info in enumerate(posts, 1)\<close> of \<open>main\<close>, on the text written to
  the quarter's file so far.
\<close>

fun write_posts :: "(string \<times> md_file) list \<Rightarrow> post list \<Rightarrow> nat \<Rightarrow> string \<Rightarrow> string" where
  "write_posts markdown_dir [] i out_f = out_f"
| "write_posts markdown_dir (post_info # posts) i out_f =
     (case map_of markdown_dir (post_id post_info) of
        None \<Rightarrow> write_posts markdown_dir posts (i + 1) out_f
      | Some Unreadable \<Rightarrow> write_posts markdown_dir posts (i + 1) out_f
      | Some (Readable content) \<Rightarrow>
          write_posts markdown_dir posts (i + 1)
            (out_f @ (if i > 1 then post_separator else []) @ content))"

definition quarter_header :: "string \<Rightarrow> nat \<Rightarrow> string" where
  "quarter_header quarter n =
     ''# Posts from '' @ quarter @ [CHR 0x0A, CHR 0x0A] @
     ''This file contains '' @ py_str (int n) @ '' posts from '' @ quarter @ ''.'' @
     [CHR 0x0A, CHR 0x0A] @ separator_line @ [CHR 0x0A, CHR 0x0A]"

definition quarter_file :: "(string \<times> md_file) list \<Rightarrow> string \<Rightarrow> post list \<Rightarrow> string" where
  "quarter_file markdown_dir quarter posts =
     write_posts markdown_dir posts 1 (quarter_header quarter (length posts))"

text \<open>
  A parser for running examples: it reads the year and the month off a string that
  begins \<open>YYYY-MM-\<close>, as the export's dates do.
\<close>

definition parse_year_month :: iso_parser where
  "parse_year_month s =
     (if length s \<ge> 8 \<and> list_all is_digit (take 4 s) \<and> s ! 4 = CHR ''-'' \<and>
         list_all is_digit (take 2 (drop 5 s)) \<and> s ! 7 = CHR ''-'' \<and>
         1 \<le> decimal_value (take 2 (drop 5 s)) \<and> decimal_value (take 2 (drop 5 s)) \<le> 12
      then Inr \<lparr>year = decimal_value (take 4 s), month = decimal_value (take 2 (drop 5 s))\<rparr>
      else Inl ValueError)"

section \<open>Example documents\<close>

text \<open>A footnote-definition division with the given link target and content children.\<close>

definition fn_div :: "string \<Rightarrow> node list \<Rightarrow> node" where
  "fn_div href content = Element ''div'' [] [''footnote'']
     [Element ''a'' [(''href'', href)] [''footnote-number''] [Text ''1''],
      Element ''div'' [] [''footnote-content''] content]"



text \<open>A footnote-definition division whose numeral has 4301 digits.\<close>

definition long_numeral_div :: node where
  "long_numeral_div =
     fn_div (''#footnote-anchor-'' @ replicate 4301 (CHR ''1'')) [Text ''note'']"

text \<open>Footnote definitions met in the order 3, 1, 10, 2.\<close>

definition footnotes_3_1_10_2 :: "node list" where
  "footnotes_3_1_10_2 =
     [Element ''p'' [] [] [Text ''body''],
      fn_div ''#footnote-anchor-3'' [Text ''three''],
      fn_div ''#footnote-anchor-1'' [Text ''one''],
      fn_div ''#footnote-anchor-10'' [Text ''ten''],
      fn_div ''#footnote-anchor-2'' [Text ''two'']]"

text \<open>A paragraph followed by one footnote definition.\<close>

definition para_and_footnote :: "node list" where
  "para_and_footnote =
     [Element ''p'' [] [] [Text ''a''], fn_div ''#footnote-anchor-1'' [Text ''n'']]"

text \<open>Two posts of the first quarter of 2025; only the second has a Markdown file.\<close>

definition rows_ex :: "post list" where
  "rows_ex =
     [\<lparr>post_id = ''101.first'', post_date = ''2025-01-05T10:00:00.000Z'', title = ''First''\<rparr>,
      \<lparr>post_id = ''102.second'', post_date = ''2025-02-01T10:00:00.000Z'', title = ''Second''\<rparr>]"

definition markdown_dir_ex :: "(string \<times> md_file) list" where
  "markdown_dir_ex = [(''102.second'', Readable ''Second post'')]"

section \<open>Strings: trimming, joining, searching\<close>

lemma lstrip_hd: "lstrip s \<noteq> [] \<Longrightarrow> \<not> py_isspace (hd (lstrip s))"
  by (simp add: lstrip_def hd_dropWhile)

lemma rstrip_last: "rstrip s \<noteq> [] \<Longrightarrow> \<not> py_isspace (last (rstrip s))"
  by (simp add: rstrip_def last_rev hd_dropWhile)

lemma last_dropWhile_eq: "dropWhile P xs \<noteq> [] \<Longrightarrow> last (dropWhile P xs) = last xs"
  by (induction xs) (auto split: if_splits)

lemma strip_hd: "strip s \<noteq> [] \<Longrightarrow> \<not> py_isspace (hd (strip s))"
  by (simp add: strip_def lstrip_hd)

lemma strip_last: "strip s \<noteq> [] \<Longrightarrow> \<not> py_isspace (last (strip s))"
proof -
  assume ne: "strip s \<noteq> []"
  then have r: "rstrip s \<noteq> []" by (auto simp: strip_def lstrip_def)
  from ne have "last (strip s) = last (rstrip s)"
    by (simp add: strip_def lstrip_def last_dropWhile_eq)
  with rstrip_last [OF r] show ?thesis by simp
qed

lemma rstrip_snoc_nonspace: "\<not> py_isspace x \<Longrightarrow> rstrip (xs @ [x]) = xs @ [x]"
  by (simp add: rstrip_def)

lemma rstrip_id: "xs \<noteq> [] \<Longrightarrow> \<not> py_isspace (last xs) \<Longrightarrow> rstrip xs = xs"
  by (cases xs rule: rev_cases) (simp_all add: rstrip_def)

lemma rstrip_append: "rstrip b \<noteq> [] \<Longrightarrow> rstrip (p @ b) = p @ rstrip b"
proof -
  assume "rstrip b \<noteq> []"
  then have "dropWhile py_isspace (rev b) \<noteq> []" by (simp add: rstrip_def)
  then obtain x where "x \<in> set (rev b)" "\<not> py_isspace x"
    by (metis dropWhile_eq_Nil_conv)
  then have "dropWhile py_isspace (rev b @ rev p) = dropWhile py_isspace (rev b) @ rev p"
    by (meson dropWhile_append1)
  then show ?thesis by (simp add: rstrip_def)
qed

lemma rstrip_Cons_nonspace: "\<not> py_isspace x \<Longrightarrow> rstrip (x # xs) = x # rstrip xs"
proof -
  assume nx: "\<not> py_isspace x"
  have "dropWhile py_isspace (rev xs @ [x]) = dropWhile py_isspace (rev xs) @ [x]"
    using nx by (simp add: dropWhile_append)
  then show ?thesis by (simp add: rstrip_def)
qed

lemma lstrip_append: "r \<noteq> [] \<Longrightarrow> \<not> py_isspace (hd r) \<Longrightarrow> lstrip (p @ r) = lstrip p @ r"
  by (induction p) (auto simp: lstrip_def, cases r, auto)

lemma strip_append_block:
  assumes "b \<noteq> []" "\<not> py_isspace (hd b)"
  shows "strip (p @ b) = lstrip p @ rstrip b"
proof -
  obtain x b' where b: "b = x # b'" using assms(1) by (cases b) auto
  with assms(2) have rb: "rstrip b = x # rstrip b'" by (simp add: rstrip_Cons_nonspace)
  then have "rstrip (p @ b) = p @ rstrip b" by (simp add: rstrip_append)
  moreover have "lstrip (p @ rstrip b) = lstrip p @ rstrip b"
    using rb assms(2) b by (simp add: lstrip_append)
  ultimately show ?thesis by (simp add: strip_def)
qed


lemma py_endswith_append: "py_endswith (p @ s) s"
  by (simp add: py_endswith_def)

lemma py_join_append:
  "xs \<noteq> [] \<Longrightarrow> ys \<noteq> [] \<Longrightarrow> py_join sep (xs @ ys) = py_join sep xs @ sep @ py_join sep ys"
  by (induction sep xs rule: py_join.induct) (auto, cases ys, auto)

lemma py_join_Cons: "ys \<noteq> [] \<Longrightarrow> py_join sep (x # ys) = x @ sep @ py_join sep ys"
  by (cases ys) auto

lemma starts_with_iff: "starts_with p s \<longleftrightarrow> (\<exists>r. s = p @ r)"
  by (induction p s rule: starts_with.induct) auto

lemma match_at_Some:
  "match_at lit s = Some ds \<Longrightarrow> ds \<noteq> [] \<and> list_all is_digit ds \<and>
     (\<exists>post. s = lit @ ds @ post \<and> (post = [] \<or> \<not> is_digit (hd post)))"
proof -
  assume m: "match_at lit s = Some ds"
  then obtain r where s: "s = lit @ r" and ds: "ds = takeWhile is_digit r" and ne: "ds \<noteq> []"
    by (auto simp: match_at_def Let_def starts_with_iff split: if_splits)
  have "list_all is_digit ds" using ds by (auto simp: list_all_iff dest: set_takeWhileD)
  moreover have "r = ds @ dropWhile is_digit r" using ds by simp
  moreover have "dropWhile is_digit r = [] \<or> \<not> is_digit (hd (dropWhile is_digit r))"
    using hd_dropWhile [of is_digit r] by blast
  ultimately show ?thesis using ne s by metis
qed

lemma match_at_None:
  "match_at lit s = None \<longleftrightarrow> \<not> (\<exists>d post. is_digit d \<and> s = lit @ d # post)"
proof
  assume m: "match_at lit s = None"
  show "\<not> (\<exists>d post. is_digit d \<and> s = lit @ d # post)"
  proof
    assume "\<exists>d post. is_digit d \<and> s = lit @ d # post"
    then obtain d post where "is_digit d" "s = lit @ d # post" by blast
    then have "match_at lit s \<noteq> None"
      by (auto simp: match_at_def Let_def starts_with_iff)
    with m show False by simp
  qed
next
  assume n: "\<not> (\<exists>d post. is_digit d \<and> s = lit @ d # post)"
  show "match_at lit s = None"
  proof (cases "match_at lit s")
    case None then show ?thesis .
  next
    case (Some ds)
    from match_at_Some [OF Some] obtain post where "ds \<noteq> []" "list_all is_digit ds" "s = lit @ ds @ post"
      by blast
    then have "is_digit (hd ds) \<and> s = lit @ hd ds # (tl ds @ post)"
      by (cases ds) auto
    with n show ?thesis by blast
  qed
qed

lemma re_search_digits_Some:
  "re_search_digits lit s = Some ds \<Longrightarrow> ds \<noteq> [] \<and> list_all is_digit ds \<and>
     (\<exists>pre post. s = pre @ lit @ ds @ post \<and> (post = [] \<or> \<not> is_digit (hd post)))"
proof (induction s)
  case Nil
  then show ?case using match_at_Some [of lit "[]" ds] by (metis append_Nil re_search_digits.simps(1))
next
  case (Cons c cs)
  show ?case
  proof (cases "match_at lit (c # cs)")
    case None
    with Cons.prems have "re_search_digits lit cs = Some ds" by simp
    from Cons.IH [OF this] obtain pre post where
      "ds \<noteq> []" "list_all is_digit ds" "cs = pre @ lit @ ds @ post" "post = [] \<or> \<not> is_digit (hd post)"
      by blast
    then have "c # cs = (c # pre) @ lit @ ds @ post" by simp
    then show ?thesis using \<open>ds \<noteq> []\<close> \<open>list_all is_digit ds\<close> \<open>post = [] \<or> \<not> is_digit (hd post)\<close>
      by blast
  next
    case (Some a)
    with Cons.prems have "match_at lit (c # cs) = Some ds" by simp
    from match_at_Some [OF this] show ?thesis by (metis append_Nil)
  qed
qed

lemma re_search_digits_None:
  "re_search_digits lit s = None \<longleftrightarrow> \<not> (\<exists>pre d post. is_digit d \<and> s = pre @ lit @ d # post)"
proof (induction s)
  case Nil
  show ?case by (auto simp: match_at_None)
next
  case (Cons c cs)
  have "(\<exists>pre d post. is_digit d \<and> c # cs = pre @ lit @ d # post) \<longleftrightarrow>
        (\<exists>d post. is_digit d \<and> c # cs = lit @ d # post) \<or>
        (\<exists>pre d post. is_digit d \<and> cs = pre @ lit @ d # post)"
    (is "?L \<longleftrightarrow> ?A \<or> ?B")
  proof
    assume ?L
    then obtain pre d post where d: "is_digit d" and e: "c # cs = pre @ lit @ d # post" by blast
    show "?A \<or> ?B"
    proof (cases pre)
      case Nil with d e show ?thesis by auto
    next
      case (Cons p ps)
      with e have "cs = ps @ lit @ d # post" by simp
      with d show ?thesis by blast
    qed
  next
    assume "?A \<or> ?B"
    then show ?L
    proof
      assume ?A then show ?L by (metis append_Nil)
    next
      assume ?B
      then obtain pre d post where "is_digit d" "cs = pre @ lit @ d # post" by blast
      then have "is_digit d \<and> c # cs = (c # pre) @ lit @ d # post" by simp
      then show ?L by blast
    qed
  qed
  moreover have "?A \<longleftrightarrow> match_at lit (c # cs) \<noteq> None"
    using match_at_None [of lit "c # cs"] by simp
  moreover have "?B \<longleftrightarrow> re_search_digits lit cs \<noteq> None"
    using Cons.IH by simp
  ultimately have L: "?L \<longleftrightarrow> match_at lit (c # cs) \<noteq> None \<or> re_search_digits lit cs \<noteq> None"
    by argo
  show ?case
  proof (cases "match_at lit (c # cs)")
    case None
    then show ?thesis using L by simp
  next
    case (Some a)
    then show ?thesis using L by simp
  qed
qed

lemma py_int_digits:
  "ds \<noteq> [] \<Longrightarrow> list_all is_digit ds \<Longrightarrow>
   py_int ds =
     (if length ds \<le> int_max_str_digits then Inr (decimal_value ds) else Inl ValueError)"
  by (simp add: py_int_def)

section \<open>The transducer: errors, the counter, the registry\<close>

lemma get_text_content_indep: "get_text_content e r1 c1 = get_text_content e r2 c2"
proof (induction e)
  case (Text s) show ?case by simp
next
  case (Comment s) show ?case by simp
next
  case (Element n a cl cs)
  show ?case
    apply simp
    apply (rule arg_cong [where f = concat])
    apply (rule map_cong [OF refl])
    using Element.IH by (auto split: node.splits)
qed

lemma handle_footnote_definition_eq:
  "handle_footnote_definition e refs c =
     (if numeral_too_long e then Inl ValueError else Inr (None, footnote_store e refs c))"
proof (cases "find_class ''a'' ''footnote-number'' e")
  case None
  then show ?thesis
    by (simp add: handle_footnote_definition_def footnote_store_def footnote_numeral_def
        footnote_digits_def numeral_too_long_def)
next
  case (Some l)
  show ?thesis
  proof (cases "re_search_digits ''footnote-anchor-'' (attr_get l ''href'' '''')")
    case None
    with Some show ?thesis
      by (simp add: handle_footnote_definition_def footnote_store_def footnote_numeral_def
          footnote_digits_def numeral_too_long_def)
  next
    case (Some ds)
    from re_search_digits_Some [OF Some]
    have "py_int ds =
      (if length ds \<le> int_max_str_digits then Inr (decimal_value ds) else Inl ValueError)"
      by (simp add: py_int_digits)
    with Some \<open>find_class ''a'' ''footnote-number'' e = Some l\<close> show ?thesis
      by (simp add: handle_footnote_definition_def footnote_store_def footnote_numeral_def
          footnote_digits_def numeral_too_long_def not_less split: option.splits)
  qed
qed

lemma footnote_store_indep: "footnote_store e refs c = footnote_store e refs c'"
  using get_text_content_indep [of _ "[]" c "[]" c']
  by (simp add: footnote_store_def split: option.splits)

lemma footnote_store_inv:
  assumes "\<And>k v r. Q r \<Longrightarrow> Q (AList.update k (strip v) r)" "Q refs"
  shows "Q (footnote_store e refs c)"
  using assms by (simp add: footnote_store_def split: option.splits)

lemma process_element_props:
  assumes step: "\<And>k v r. Q r \<Longrightarrow> Q (AList.update k (strip v) r)"
  shows
  "(\<forall>c'. process_element e refs c' = process_element e refs c) \<and>
   (raises_value_error e \<longrightarrow> process_element e refs c = Inl ValueError) \<and>
   (\<not> raises_value_error e \<longrightarrow>
      (\<exists>res refs'. process_element e refs c = Inr (res, refs') \<and> (Q refs \<longrightarrow> Q refs')))"
  and
  "(\<forall>c'. process_div_children cs refs c' results = process_div_children cs refs c results) \<and>
   ((\<exists>child \<in> set cs. raises_value_error child) \<longrightarrow>
      process_div_children cs refs c results = Inl ValueError) \<and>
   (\<not> (\<exists>child \<in> set cs. raises_value_error child) \<longrightarrow>
      (\<exists>rs refs'. process_div_children cs refs c results = Inr (rs, refs') \<and>
         (Q refs \<longrightarrow> Q refs')))"
proof (induction e refs c and cs refs c results rule: process_element_process_div_children.induct)
  case (1 s refs c)
  show ?case by (simp add: Let_def)
next
  case (2 s refs c)
  show ?case by (simp add: Let_def)
next
  case (3 n a cl cs refs c)
  show ?case
  proof (cases "n = ''div''")
    case False
    have i: "process_element (Element n a cl cs) refs c' = process_element (Element n a cl cs) refs c"
      for c'
      using False get_text_content_indep [of _ refs c' refs c]
      by (simp del: get_text_content.simps)
    have "\<exists>res. process_element (Element n a cl cs) refs c = Inr (res, refs)"
      using False by (simp del: get_text_content.simps)
    then obtain res where "process_element (Element n a cl cs) refs c = Inr (res, refs)" ..
    with i False show ?thesis by simp
  next
    case div: True
    show ?thesis
    proof (cases "''captioned-image-container'' \<in> set cl")
      case True
      with div show ?thesis by simp
    next
      case nimg: False
      show ?thesis
      proof (cases "''footnote'' \<in> set cl")
        case True
        have r: "raises_value_error (Element n a cl cs) = numeral_too_long (Element n a cl cs)"
          using True div nimg by simp
        have "process_element (Element n a cl cs) refs c' =
              (if numeral_too_long (Element n a cl cs) then Inl ValueError
               else Inr (None, footnote_store (Element n a cl cs) refs c))" for c'
          using True div nimg footnote_store_indep [of "Element n a cl cs" refs c' c]
          by (simp add: handle_footnote_definition_eq)
        moreover have "Q refs \<longrightarrow> Q (footnote_store (Element n a cl cs) refs c)"
          using footnote_store_inv [of Q refs] step by blast
        ultimately show ?thesis unfolding r by simp
      next
        case False
        have r: "raises_value_error (Element n a cl cs) =
                 (\<exists>child \<in> set cs. raises_value_error child)"
          using False div nimg by simp
        have e: "process_element (Element n a cl cs) refs c' =
              (case process_div_children cs refs c' [] of
                 Inl err \<Rightarrow> Inl err
               | Inr (results, refs') \<Rightarrow>
                   Inr (if results \<noteq> [] then Some (py_join [CHR 0x0A, CHR 0x0A] results)
                        else None, refs'))" for c'
          using div nimg False by simp
        from "3.IH" div nimg False have
          i: "\<And>c'. process_div_children cs refs c' [] = process_div_children cs refs c []"
          and b: "(\<exists>child \<in> set cs. raises_value_error child) \<longrightarrow>
                  process_div_children cs refs c [] = Inl ValueError"
          and g: "\<not> (\<exists>child \<in> set cs. raises_value_error child) \<longrightarrow>
                  (\<exists>rs refs'. process_div_children cs refs c [] = Inr (rs, refs') \<and>
                     (Q refs \<longrightarrow> Q refs'))"
          by auto
        show ?thesis
        proof (cases "\<exists>child \<in> set cs. raises_value_error child")
          case True
          with b have "process_div_children cs refs c [] = Inl ValueError" by simp
          with i True show ?thesis unfolding r e by simp
        next
          case nr: False
          with g obtain rs refs' where
            "process_div_children cs refs c [] = Inr (rs, refs')" "Q refs \<longrightarrow> Q refs'"
            by blast
          with i nr show ?thesis unfolding r e by simp
        qed
      qed
    qed
  qed
next
  case (4 refs c results)
  show ?case by simp
next
  case (5 s rest refs c results)
  then show ?case by simp
next
  case (6 s rest refs c results)
  then show ?case by simp
next
  case (7 n a cl cs rest refs c results)
  show ?case
  proof (cases "n = []")
    case True
    then have nr: "\<not> raises_value_error (Element n a cl cs)" by simp
    from True have "process_div_children (Element n a cl cs # rest) refs c' results =
        process_div_children rest refs c' results" for c'
      by simp
    with "7.IH"(5) [OF _] True nr show ?thesis by simp
  next
    case False
    from "7.IH"(1) [OF False] have
      i: "\<And>c'. process_element (Element n a cl cs) refs c' =
                process_element (Element n a cl cs) refs c"
      and b: "raises_value_error (Element n a cl cs) \<longrightarrow>
              process_element (Element n a cl cs) refs c = Inl ValueError"
      and g: "\<not> raises_value_error (Element n a cl cs) \<longrightarrow>
              (\<exists>res refs'. process_element (Element n a cl cs) refs c = Inr (res, refs') \<and>
                 (Q refs \<longrightarrow> Q refs'))"
      by blast+
    show ?thesis
    proof (cases "raises_value_error (Element n a cl cs)")
      case True
      with b have r: "process_element (Element n a cl cs) refs c = Inl ValueError" by blast
      have "process_div_children (Element n a cl cs # rest) refs c' results = Inl ValueError"
        for c'
        using False i [of c'] r by (simp del: process_element.simps)
      with True show ?thesis
        by (simp del: process_element.simps process_div_children.simps
            raises_value_error.simps)
    next
      case nr: False
      with g obtain res refs1 where
        r: "process_element (Element n a cl cs) refs c = Inr (res, refs1)"
        and q: "Q refs \<longrightarrow> Q refs1"
        by blast
      define results' where
        "results' = (case res of None \<Rightarrow> results
                     | Some x \<Rightarrow> if x \<noteq> [] then results @ [x] else results)"
      have IH: "(\<forall>c'. process_div_children rest refs1 c' results' =
                      process_div_children rest refs1 c results') \<and>
        ((\<exists>child \<in> set rest. raises_value_error child) \<longrightarrow>
           process_div_children rest refs1 c results' = Inl ValueError) \<and>
        (\<not> (\<exists>child \<in> set rest. raises_value_error child) \<longrightarrow>
           (\<exists>rs refs'. process_div_children rest refs1 c results' = Inr (rs, refs') \<and>
              (Q refs1 \<longrightarrow> Q refs')))"
      proof (cases res)
        case None
        with "7.IH"(2) [OF False r] show ?thesis by (simp add: results'_def)
      next
        case (Some x)
        show ?thesis
        proof (cases "x = []")
          case True
          with Some "7.IH"(4) [OF False r, of res refs1 x] show ?thesis
            by (simp add: results'_def)
        next
          case nx: False
          with Some "7.IH"(3) [OF False r, of res refs1 x] show ?thesis
            by (simp add: results'_def)
        qed
      qed
      have st: "process_div_children (Element n a cl cs # rest) refs c' results =
          process_div_children rest refs1 c' results'" for c'
        using False i [of c'] r
        by (simp del: process_element.simps add: results'_def split: option.splits)
      have ex: "(\<exists>child \<in> set (Element n a cl cs # rest). raises_value_error child) =
                (\<exists>child \<in> set rest. raises_value_error child)"
        using nr by (simp del: raises_value_error.simps)
      show ?thesis
        unfolding st ex using IH q by blast
    qed
  qed
qed

section \<open>The assembled document\<close>

lemma map_insort_key: "map f (insort_key f x xs) = insort (f x) (map f xs)"
  by (induction xs) auto

lemma map_sort_key: "map f (sort_key f xs) = sort (map f xs)"
  by (induction xs) (auto simp: map_insort_key)

lemma footnote_entries_pairs:
  "(\<And>k v. (k, v) \<in> set ps \<Longrightarrow> map_of d k = Some v) \<Longrightarrow>
   footnote_entries d (map fst ps) = Inr (map (\<lambda>(k, v). footnote_line k v) ps)"
proof (induction ps)
  case Nil show ?case by simp
next
  case (Cons p ps)
  obtain k v where p: "p = (k, v)" by (cases p)
  from Cons.prems [of k v] p have "map_of d k = Some v" by simp
  moreover have "footnote_entries d (map fst ps) = Inr (map (\<lambda>(k, v). footnote_line k v) ps)"
    using Cons.IH Cons.prems by simp
  ultimately show ?case using p by (simp add: py_getitem_def)
qed

lemma footnote_block_eq:
  assumes "distinct (map fst refs)"
  shows "footnote_block refs = Inr (footer_lines refs)"
proof -
  have "footnote_entries refs (map fst (sort_key fst refs)) = Inr (footnote_lines refs)"
    unfolding footnote_lines_def
    using assms by (intro footnote_entries_pairs) simp
  then show ?thesis
    by (simp add: footnote_block_def footer_lines_def map_sort_key)
qed

lemma set_update_cases:
  "(k', v') \<in> set (AList.update k v r) \<Longrightarrow> (k', v') = (k, v) \<or> (k', v') \<in> set r"
  by (induction r) (auto split: if_splits)

lemma registry_ok_update: "registry_ok r \<Longrightarrow> registry_ok (AList.update k (strip v) r)"
  unfolding registry_ok_def
  using strip_last [of v]
  by (auto simp: distinct_update dest!: set_update_cases)

lemma process_top_props:
  assumes step: "\<And>k v r. Q r \<Longrightarrow> Q (AList.update k (strip v) r)"
  shows "((\<exists>x \<in> set soup. raises_value_error x) \<longrightarrow>
            (\<forall>l0 c. process_top soup (l0, refs, c) = Inl ValueError)) \<and>
         (\<not> (\<exists>x \<in> set soup. raises_value_error x) \<longrightarrow>
            (\<exists>ls rs. (\<forall>l0 c. \<exists>c'. process_top soup (l0, refs, c) = Inr (l0 @ ls, rs, c')) \<and>
                     (Q refs \<longrightarrow> Q rs)))"
proof (induction soup arbitrary: refs)
  case Nil
  show ?case by simp
next
  case (Cons x soup)
  show ?case
  proof (cases x)
    case (Text s)
    with Cons.IH [of refs] show ?thesis by simp
  next
    case (Comment s)
    with Cons.IH [of refs] show ?thesis by simp
  next
    case (Element n a cl cs)
    from process_element_props(1) [of Q "Element n a cl cs" refs 0, OF step] have
      i: "\<And>c'. process_element (Element n a cl cs) refs c' =
                process_element (Element n a cl cs) refs 0"
      and b: "raises_value_error (Element n a cl cs) \<longrightarrow>
              process_element (Element n a cl cs) refs 0 = Inl ValueError"
      and g: "\<not> raises_value_error (Element n a cl cs) \<longrightarrow>
              (\<exists>res refs'. process_element (Element n a cl cs) refs 0 = Inr (res, refs') \<and>
                 (Q refs \<longrightarrow> Q refs'))"
      by blast+
    show ?thesis
    proof (cases "raises_value_error (Element n a cl cs)")
      case True
      with b have r: "process_element (Element n a cl cs) refs 0 = Inl ValueError" by blast
      have "process_top (x # soup) (l0, refs, c) = Inl ValueError" for l0 c
        using Element i [of c] r by (simp del: process_element.simps)
      with True Element show ?thesis
        by (simp del: process_element.simps process_top.simps raises_value_error.simps)
    next
      case nr: False
      with g obtain res refs1 where
        r: "process_element (Element n a cl cs) refs 0 = Inr (res, refs1)"
        and q: "Q refs \<longrightarrow> Q refs1"
        by blast
      define add where
        "add = (case res of None \<Rightarrow> [] | Some r \<Rightarrow> if r \<noteq> [] then [r] else [])"
      have st: "\<exists>c''. process_top (x # soup) (l0, refs, c) =
                      process_top soup (l0 @ add, refs1, c'')" for l0 c
        using i [of c] r Element
        by (auto simp del: process_element.simps simp: add_def split: option.splits)
      have ex: "(\<exists>y \<in> set (x # soup). raises_value_error y) =
                (\<exists>y \<in> set soup. raises_value_error y)"
        using nr Element by (simp del: raises_value_error.simps)
      show ?thesis
      proof (cases "\<exists>y \<in> set soup. raises_value_error y")
        case True
        with Cons.IH [of refs1] have
          t: "\<And>l0 c. process_top soup (l0, refs1, c) = Inl ValueError" by blast
        have "process_top (x # soup) (l0, refs, c) = Inl ValueError" for l0 c
          using st [of l0 c] t by auto
        with True show ?thesis unfolding ex by simp
      next
        case ns: False
        with Cons.IH [of refs1] obtain ls rs where
          t: "\<And>l0 c. \<exists>c'. process_top soup (l0, refs1, c) = Inr (l0 @ ls, rs, c')"
          and q2: "Q refs1 \<longrightarrow> Q rs"
          by blast
        have "\<exists>c'. process_top (x # soup) (l0, refs, c) = Inr (l0 @ (add @ ls), rs, c')"
          for l0 c
        proof -
          from st [of l0 c] obtain c'' where
            "process_top (x # soup) (l0, refs, c) = process_top soup (l0 @ add, refs1, c'')" ..
          with t [of "l0 @ add" c''] show ?thesis by simp
        qed
        with q q2 ns show ?thesis unfolding ex by blast
      qed
    qed
  qed
qed

lemma convert_shape:
  "((\<exists>x \<in> set soup. raises_value_error x) \<longrightarrow>
      (\<forall>l0 c. process_top soup (l0, [], c) = Inl ValueError) \<and>
      (\<forall>ttl sub. convert_html_to_markdown soup ttl sub = Inl ValueError)) \<and>
   (\<not> (\<exists>x \<in> set soup. raises_value_error x) \<longrightarrow>
      (\<exists>body refs. registry_ok refs \<and>
         (\<forall>l0 c. \<exists>c'. process_top soup (l0, [], c) = Inr (l0 @ body, refs, c')) \<and>
         (\<forall>ttl sub. convert_html_to_markdown soup ttl sub =
            Inr (strip (py_join [CHR 0x0A, CHR 0x0A]
                   (header_lines ttl sub @ body @ footer_lines refs))))))"
proof (cases "\<exists>x \<in> set soup. raises_value_error x")
  case True
  with process_top_props [of registry_ok soup "[]", OF registry_ok_update]
  have t: "\<And>l0 c. process_top soup (l0, [], c) = Inl ValueError" by blast
  then have "convert_html_to_markdown soup ttl sub = Inl ValueError" for ttl sub
    by (simp add: convert_html_to_markdown_def)
  with t True show ?thesis by simp
next
  case False
  with process_top_props [of registry_ok soup "[]", OF registry_ok_update]
  obtain body refs where
    t: "\<And>l0 c. \<exists>c'. process_top soup (l0, [], c) = Inr (l0 @ body, refs, c')"
    and ok: "registry_ok refs"
    by (auto simp: registry_ok_def)
  have "convert_html_to_markdown soup ttl sub =
        Inr (strip (py_join [CHR 0x0A, CHR 0x0A]
               (header_lines ttl sub @ body @ footer_lines refs)))" for ttl sub
  proof -
    from t [of "header_lines ttl sub" 1] obtain c' where
      "process_top soup (header_lines ttl sub, [], 1) =
       Inr (header_lines ttl sub @ body, refs, c')" ..
    moreover have "footnote_block refs = Inr (footer_lines refs)"
      using ok by (simp add: footnote_block_eq registry_ok_def)
    ultimately show ?thesis by (simp add: convert_html_to_markdown_def)
  qed
  with t ok False show ?thesis by blast
qed

section \<open>The footnote block in the output\<close>

lemma py_join_hd: "x \<noteq> [] \<Longrightarrow> py_join sep (x # xs) \<noteq> [] \<and> hd (py_join sep (x # xs)) = hd x"
  by (cases xs) auto

lemma py_join_last:
  "xs \<noteq> [] \<Longrightarrow> last xs \<noteq> [] \<Longrightarrow> py_join sep xs \<noteq> [] \<and> last (py_join sep xs) = last (last xs)"
  by (induction sep xs rule: py_join.induct) auto

lemma footnote_lines_nonempty: "refs \<noteq> [] \<Longrightarrow> footnote_lines refs \<noteq> []"
  by (simp add: footnote_lines_def) (metis length_0_conv length_sort)

lemma footnote_line_hd: "footnote_line k v \<noteq> [] \<and> hd (footnote_line k v) = CHR ''[''"
  by (simp add: footnote_line_def)

lemma footnote_lines_join_hd:
  assumes "refs \<noteq> []"
  shows "py_join sep (footnote_lines refs) \<noteq> [] \<and> hd (py_join sep (footnote_lines refs)) = CHR ''[''"
proof -
  from footnote_lines_nonempty [OF assms] obtain e es where fl: "footnote_lines refs = e # es"
    by (cases "footnote_lines refs") auto
  then have "e \<in> set (footnote_lines refs)" by simp
  then obtain k v where "e = footnote_line k v" by (auto simp: footnote_lines_def)
  with footnote_line_hd [of k v] have "e \<noteq> []" "hd e = CHR ''[''" by simp_all
  with py_join_hd [of e sep es] fl show ?thesis by simp
qed

lemma assembled_with_footnotes:
  assumes "refs \<noteq> []"
  shows "strip (py_join [CHR 0x0A, CHR 0x0A] (pre @ footer_lines refs)) =
         lstrip ((if pre = [] then [] else py_join [CHR 0x0A, CHR 0x0A] pre @ [CHR 0x0A, CHR 0x0A]) @
                 [CHR 0x0A]) @
         (''---'' @ [CHR 0x0A, CHR 0x0A, CHR 0x0A]) @
         rstrip (py_join [CHR 0x0A, CHR 0x0A] (footnote_lines refs))"
proof -
  define B where "B = py_join [CHR 0x0A, CHR 0x0A] (footnote_lines refs)"
  define X where
    "X = (if pre = [] then [] else py_join [CHR 0x0A, CHR 0x0A] pre @ [CHR 0x0A, CHR 0x0A])"
  have fl: "footnote_lines refs \<noteq> []" using assms by (rule footnote_lines_nonempty)
  have B: "B \<noteq> []" "hd B = CHR ''[''"
    using footnote_lines_join_hd [OF assms] by (simp_all add: B_def)
  then obtain B' where B': "B = CHR ''['' # B'" by (cases B) auto
  have nb: "\<not> py_isspace (CHR ''['')" by (simp add: py_isspace_def)
  have rB: "rstrip B \<noteq> []" using B' nb by (simp add: rstrip_Cons_nonspace)
  have foot: "py_join [CHR 0x0A, CHR 0x0A] (footer_lines refs) =
              [CHR 0x0A] @ ''---'' @ [CHR 0x0A] @ [CHR 0x0A, CHR 0x0A] @ B"
    using assms fl by (simp add: footer_lines_def py_join_Cons B_def)
  have fne: "footer_lines refs \<noteq> []" using assms by (simp add: footer_lines_def)
  have "py_join [CHR 0x0A, CHR 0x0A] (pre @ footer_lines refs) =
        X @ py_join [CHR 0x0A, CHR 0x0A] (footer_lines refs)"
    using fne by (cases "pre = []") (simp_all add: X_def py_join_append)
  with foot have S: "py_join [CHR 0x0A, CHR 0x0A] (pre @ footer_lines refs) =
        (X @ [CHR 0x0A]) @ ((''---'' @ [CHR 0x0A, CHR 0x0A, CHR 0x0A]) @ B)"
    by simp
  have "strip ((X @ [CHR 0x0A]) @ ((''---'' @ [CHR 0x0A, CHR 0x0A, CHR 0x0A]) @ B)) =
        lstrip (X @ [CHR 0x0A]) @ rstrip ((''---'' @ [CHR 0x0A, CHR 0x0A, CHR 0x0A]) @ B)"
    by (rule strip_append_block) (simp_all add: py_isspace_def)
  moreover have "rstrip ((''---'' @ [CHR 0x0A, CHR 0x0A, CHR 0x0A]) @ B) =
        (''---'' @ [CHR 0x0A, CHR 0x0A, CHR 0x0A]) @ rstrip B"
    using rB by (rule rstrip_append)
  ultimately show ?thesis unfolding S B_def X_def by simp
qed

lemma footnote_lines_rstrip:
  assumes ok: "registry_ok refs" and ne: "refs \<noteq> []"
    and c: "snd (last (sort_key fst refs)) \<noteq> []"
  shows "rstrip (py_join sep (footnote_lines refs)) = py_join sep (footnote_lines refs)"
proof -
  have sne: "sort_key fst refs \<noteq> []" using ne by (metis length_0_conv length_sort)
  obtain k v where kv: "last (sort_key fst refs) = (k, v)" by (cases "last (sort_key fst refs)")
  with sne have "(k, v) \<in> set (sort_key fst refs)" by (metis last_in_set)
  then have mem: "(k, v) \<in> set refs" by simp
  from c kv have v: "v \<noteq> []" by simp
  with ok mem have nsp: "\<not> py_isspace (last v)" by (auto simp: registry_ok_def)
  have l: "last (footnote_lines refs) = footnote_line k v"
    using sne kv by (simp add: footnote_lines_def last_map)
  have "footnote_line k v \<noteq> []" "last (footnote_line k v) = last v"
    using v by (simp_all add: footnote_line_def)
  with py_join_last [of "footnote_lines refs" sep] l footnote_lines_nonempty [OF ne]
  have "py_join sep (footnote_lines refs) \<noteq> []"
    "last (py_join sep (footnote_lines refs)) = last v" by simp_all
  with nsp show ?thesis by (simp add: rstrip_id)
qed

lemma strip_no_outer_space:
  "strip s \<noteq> [] \<Longrightarrow> \<not> py_isspace (hd (strip s)) \<and> \<not> py_isspace (last (strip s))"
  by (simp add: strip_hd strip_last)

section \<open>The batcher's loop\<close>

lemma write_posts_readable:
  "list_all2 (\<lambda>p c. map_of md (post_id p) = Some (Readable c)) posts contents \<Longrightarrow>
   1 \<le> i \<Longrightarrow>
   write_posts md posts i out =
     out @ (if posts = [] then []
            else (if i > 1 then post_separator else []) @ py_join post_separator contents)"
proof (induction arbitrary: i out rule: list_all2_induct)
  case Nil
  show ?case by simp
next
  case (Cons p ps c cs)
  from Cons.hyps(2) have "ps = [] \<longleftrightarrow> cs = []" by (auto dest: list_all2_lengthD)
  then show ?case using Cons.hyps(1) Cons.IH [of "i + 1"] Cons.prems
    by (cases cs) (auto simp: py_join_Cons)
qed

section \<open>The footnote division with 4301 digits\<close>

lemma match_at_replicate:
  "is_digit d \<Longrightarrow> 0 < n \<Longrightarrow> match_at lit (lit @ replicate n d) = Some (replicate n d)"
  by (auto simp: match_at_def starts_with_iff Let_def)

lemma re_search_digits_match_at:
  "match_at lit s = Some ds \<Longrightarrow> re_search_digits lit s = Some ds"
  by (cases s) auto

lemma long_numeral_digits:
  "re_search_digits ''footnote-anchor-'' (''#footnote-anchor-'' @ replicate 4301 (CHR ''1'')) =
     Some (replicate 4301 (CHR ''1''))"
proof -
  have d: "is_digit (CHR ''1'')" by (simp add: is_digit_def)
  have "match_at ''footnote-anchor-'' (''footnote-anchor-'' @ replicate 4301 (CHR ''1'')) =
        Some (replicate 4301 (CHR ''1''))"
    using d by (rule match_at_replicate) simp
  then have "re_search_digits ''footnote-anchor-''
               (''footnote-anchor-'' @ replicate 4301 (CHR ''1'')) =
             Some (replicate 4301 (CHR ''1''))"
    by (rule re_search_digits_match_at)
  moreover have "match_at ''footnote-anchor-''
                   (CHR ''#'' # ''footnote-anchor-'' @ replicate 4301 (CHR ''1'')) = None"
    by (simp add: match_at_def)
  ultimately show ?thesis by simp
qed

lemma long_numeral_div_too_long: "numeral_too_long long_numeral_div"
proof -
  have "find_class ''a'' ''footnote-number'' long_numeral_div =
        Some (Element ''a'' [(''href'', ''#footnote-anchor-'' @ replicate 4301 (CHR ''1''))]
                [''footnote-number''] [Text ''1''])"
    by (simp add: long_numeral_div_def fn_div_def find_class_def)
  then have "footnote_digits long_numeral_div = Some (replicate 4301 (CHR ''1''))"
    using long_numeral_digits by (simp add: footnote_digits_def)
  then show ?thesis by (simp add: numeral_too_long_def int_max_str_digits_def)
qed

section \<open>The claims\<close>

text \<open>
  C7. The output does not depend on the footnote counter. Whatever counter value a call
  receives, the inline extractor and the element transducer return the same result; the
  loop over the top-level children, started with any counter, ends with the same lines
  and the same registry; and the document loop started with any counter in place of 1
  yields the conversion's output.
\<close>

theorem counter_independence:
  "get_text_content e refs c1 = get_text_content e refs c2 \<and>
   process_element e refs c1 = process_element e refs c2 \<and>
   map_sum id (\<lambda>(ls, rs, c). (ls, rs)) (process_top soup (l0, refs, c1)) =
   map_sum id (\<lambda>(ls, rs, c). (ls, rs)) (process_top soup (l0, refs, c2)) \<and>
   (case process_top soup (header_lines ttl sub, [], c1) of
      Inl err \<Rightarrow> Inl err
    | Inr (markdown_lines, footnote_references, footnote_counter) \<Rightarrow>
        (case footnote_block footnote_references of
           Inl err \<Rightarrow> Inl err
         | Inr fl \<Rightarrow> Inr (strip (py_join [CHR 0x0A, CHR 0x0A] (markdown_lines @ fl))))) =
   convert_html_to_markdown soup ttl sub"
proof (intro conjI)
  show "get_text_content e refs c1 = get_text_content e refs c2"
    by (rule get_text_content_indep)
next
  from process_element_props(1) [of "\<lambda>r. True" e refs c2]
  have "\<And>c'. process_element e refs c' = process_element e refs c2" by blast
  then show "process_element e refs c1 = process_element e refs c2" .
next
  show "map_sum id (\<lambda>(ls, rs, c). (ls, rs)) (process_top soup (l0, refs, c1)) =
        map_sum id (\<lambda>(ls, rs, c). (ls, rs)) (process_top soup (l0, refs, c2))"
  proof (cases "\<exists>x \<in> set soup. raises_value_error x")
    case True
    with process_top_props [of "\<lambda>r. True" soup refs]
    have "\<And>l0 c. process_top soup (l0, refs, c) = Inl ValueError" by blast
    then show ?thesis by simp
  next
    case False
    with process_top_props [of "\<lambda>r. True" soup refs]
    obtain ls rs where
      t: "\<And>l0 c. \<exists>c'. process_top soup (l0, refs, c) = Inr (l0 @ ls, rs, c')"
      by blast
    from t [of l0 c1] t [of l0 c2] show ?thesis by auto
  qed
next
  show "(case process_top soup (header_lines ttl sub, [], c1) of
      Inl err \<Rightarrow> Inl err
    | Inr (markdown_lines, footnote_references, footnote_counter) \<Rightarrow>
        (case footnote_block footnote_references of
           Inl err \<Rightarrow> Inl err
         | Inr fl \<Rightarrow> Inr (strip (py_join [CHR 0x0A, CHR 0x0A] (markdown_lines @ fl))))) =
   convert_html_to_markdown soup ttl sub"
  proof (cases "\<exists>x \<in> set soup. raises_value_error x")
    case True
    with process_top_props [of "\<lambda>r. True" soup "[]"]
    have "\<And>l0 c. process_top soup (l0, [], c) = Inl ValueError" by blast
    then show ?thesis by (simp add: convert_html_to_markdown_def)
  next
    case False
    with process_top_props [of "\<lambda>r. True" soup "[]"]
    obtain ls rs where
      t: "\<And>l0 c. \<exists>c'. process_top soup (l0, [], c) = Inr (l0 @ ls, rs, c')"
      by blast
    from t [of "header_lines ttl sub" c1] t [of "header_lines ttl sub" 1]
    show ?thesis by (auto simp: convert_html_to_markdown_def)
  qed
qed

theorem counter_independence_witness:
  "process_element
     (Element ''p'' [] []
        [Text ''x'', Element ''a'' [(''href'', ''#footnote-2'')] [''footnote-anchor''] []]) [] 1 =
   process_element
     (Element ''p'' [] []
        [Text ''x'', Element ''a'' [(''href'', ''#footnote-2'')] [''footnote-anchor''] []]) [] 7 \<and>
   process_element
     (Element ''p'' [] []
        [Text ''x'', Element ''a'' [(''href'', ''#footnote-2'')] [''footnote-anchor''] []]) [] 7 =
   Inr (Some ''x[^2]'', [])"
  using counter_independence
    [of "Element ''p'' [] []
           [Text ''x'', Element ''a'' [(''href'', ''#footnote-2'')] [''footnote-anchor''] []]"
        "[]" 1 7]
  by code_simp

text \<open>
  C10. When the title is absent (or empty) no header is emitted: the header has no line
  at all, whatever the subtitle, so the output is the one of the conversion with neither
  title nor subtitle.
\<close>

theorem no_title_no_header:
  assumes "ttl = None \<or> ttl = Some []"
  shows "header_lines ttl sub = [] \<and>
         convert_html_to_markdown soup ttl sub = convert_html_to_markdown soup None None"
  using assms by (auto simp: header_lines_def convert_html_to_markdown_def)

theorem no_title_no_header_witness:
  "header_lines None (Some ''Sub'') = [] \<and>
   convert_html_to_markdown [Element ''p'' [] [] [Text ''a'']] None (Some ''Sub'') =
   convert_html_to_markdown [Element ''p'' [] [] [Text ''a'']] None None \<and>
   convert_html_to_markdown [Element ''p'' [] [] [Text ''a'']] None (Some ''Sub'') = Inr ''a''"
proof -
  have h: "(None :: string option) = None \<or> None = Some []" by simp
  have "convert_html_to_markdown [Element ''p'' [] [] [Text ''a'']] None None = Inr ''a''"
    by code_simp
  with no_title_no_header [OF h, of "Some ''Sub''" "[Element ''p'' [] [] [Text ''a'']]"]
  show ?thesis by simp
qed

text \<open>
  C5, as amended. Unless the numeral has more than 4300 digits, where \<open>int()\<close> raises,
  the footnote handler returns no visible output. It stores the trimmed inline
  rendering of the content sub-element under the numeral, overwriting an earlier entry
  of that numeral, when the numeral is extractable and the content sub-element is
  present; when either is missing the registry is unchanged.
\<close>

theorem footnote_handler_effect:
  "handle_footnote_definition element registry counter =
     (if numeral_too_long element then Inl ValueError
      else Inr (None, footnote_store element registry counter)) \<and>
   map_of (footnote_store element registry counter) =
     (case footnote_numeral element of
        None \<Rightarrow> map_of registry
      | Some k \<Rightarrow>
          (case find_class ''div'' ''footnote-content'' element of
             None \<Rightarrow> map_of registry
           | Some content \<Rightarrow>
               (map_of registry)(k \<mapsto> strip (get_text_content content [] counter)))) \<and>
   (footnote_numeral element = None \<or> find_class ''div'' ''footnote-content'' element = None
      \<longrightarrow> footnote_store element registry counter = registry)"
  by (simp add: handle_footnote_definition_eq footnote_store_def update_conv'
      split: option.splits)

text \<open>
  C5 as stated fails: a footnote division whose numeral is extractable but which has no
  content sub-element stores nothing.
\<close>

theorem footnote_handler_store_counterexample:
  "footnote_numeral (Element ''div'' [] [''footnote'']
       [Element ''a'' [(''href'', ''#footnote-anchor-1'')] [''footnote-number''] [Text ''1'']]) = Some 1 \<and>
   handle_footnote_definition (Element ''div'' [] [''footnote'']
       [Element ''a'' [(''href'', ''#footnote-anchor-1'')] [''footnote-number''] [Text ''1'']]) [] 1
     = Inr (None, [])"
  by code_simp

theorem footnote_handler_effect_witness:
  "\<not> numeral_too_long (fn_div ''#footnote-anchor-1'' [Text '' new '']) \<and>
   handle_footnote_definition (fn_div ''#footnote-anchor-1'' [Text '' new ''])
     [(1, ''old''), (2, ''two'')] 1 =
     Inr (None, [(1, ''new''), (2, ''two'')]) \<and>
   footnote_numeral (Element ''div'' [] [''footnote''] []) = None \<and>
   footnote_store (Element ''div'' [] [''footnote''] []) [(1, ''old'')] 1 = [(1, ''old'')] \<and>
   numeral_too_long long_numeral_div \<and>
   handle_footnote_definition long_numeral_div [(1, ''old'')] 1 = Inl ValueError"
proof -
  have n: "\<not> numeral_too_long (fn_div ''#footnote-anchor-1'' [Text '' new ''])"
    by code_simp
  have s: "footnote_store (fn_div ''#footnote-anchor-1'' [Text '' new ''])
             [(1, ''old''), (2, ''two'')] 1 = [(1, ''new''), (2, ''two'')]"
    by code_simp
  have h: "footnote_numeral (Element ''div'' [] [''footnote''] []) = None"
    by code_simp
  have l: "numeral_too_long long_numeral_div"
    by (rule long_numeral_div_too_long)
  from footnote_handler_effect
         [of "fn_div ''#footnote-anchor-1'' [Text '' new '']" "[(1, ''old''), (2, ''two'')]" 1]
       footnote_handler_effect [of "Element ''div'' [] [''footnote''] []" "[(1, ''old'')]" 1]
       footnote_handler_effect [of long_numeral_div "[(1, ''old'')]" 1]
       n s h l
  show ?thesis by simp
qed




text \<open>
  C4. A footnote-anchor link among the children of a node contributes \<open>[^digits]\<close> to the
  inline rendering when its target matches \<open>#footnote-\<close> followed by digits, and nothing
  otherwise; its siblings are rendered as without it. There is no match exactly when the
  target has no occurrence of \<open>#footnote-\<close> followed by a digit, and the matched digits
  are a non-empty, maximal run of digits right after an occurrence.
\<close>

theorem footnote_anchor_rendering:
  assumes "''footnote-anchor'' \<in> set ccl"
  shows "get_text_content (Element n a cl (before @ [Element ''a'' ca ccl ccs] @ after)) refs c =
           get_text_content (Element n a cl before) refs c @
           (case re_search_digits ''#footnote-'' (attr_get (Element ''a'' ca ccl ccs) ''href'' '''') of
              Some ds \<Rightarrow> ''[^'' @ ds @ '']''
            | None \<Rightarrow> []) @
           get_text_content (Element n a cl after) refs c \<and>
         ((re_search_digits ''#footnote-'' href = None) =
            (\<not> (\<exists>pre d post. is_digit d \<and> href = pre @ ''#footnote-'' @ d # post))) \<and>
         (re_search_digits ''#footnote-'' href = Some ds \<longrightarrow>
            ds \<noteq> [] \<and> list_all is_digit ds \<and>
            (\<exists>pre post. href = pre @ ''#footnote-'' @ ds @ post \<and>
                        (post = [] \<or> \<not> is_digit (hd post))))"
proof (intro conjI)
  show "get_text_content (Element n a cl (before @ [Element ''a'' ca ccl ccs] @ after)) refs c =
           get_text_content (Element n a cl before) refs c @
           (case re_search_digits ''#footnote-'' (attr_get (Element ''a'' ca ccl ccs) ''href'' '''') of
              Some ds \<Rightarrow> ''[^'' @ ds @ '']''
            | None \<Rightarrow> []) @
           get_text_content (Element n a cl after) refs c"
    using assms by (simp split: option.splits)
next
  show "(re_search_digits ''#footnote-'' href = None) =
            (\<not> (\<exists>pre d post. is_digit d \<and> href = pre @ ''#footnote-'' @ d # post))"
    by (rule re_search_digits_None)
next
  show "re_search_digits ''#footnote-'' href = Some ds \<longrightarrow>
            ds \<noteq> [] \<and> list_all is_digit ds \<and>
            (\<exists>pre post. href = pre @ ''#footnote-'' @ ds @ post \<and>
                        (post = [] \<or> \<not> is_digit (hd post)))"
    using re_search_digits_Some [of "''#footnote-''" href ds] by blast
qed

theorem footnote_anchor_rendering_witness:
  "''footnote-anchor'' \<in> set [''footnote-anchor''] \<and>
   re_search_digits ''#footnote-'' ''https://x.example/p/post#footnote-12'' = Some ''12'' \<and>
   get_text_content (Element ''p'' [] []
      ([Text ''see''] @ [Element ''a'' [(''href'', ''https://x.example/p/post#footnote-12'')] [''footnote-anchor''] [Text ''12'']] @ [Text ''.''])) [] 1 = ''see[^12].'' \<and>
   re_search_digits ''#footnote-'' ''#fn-12'' = None \<and>
   get_text_content (Element ''p'' [] []
      ([Text ''see''] @ [Element ''a'' [(''href'', ''#fn-12'')] [''footnote-anchor''] [Text ''12'']] @ [Text ''.''])) [] 1 = ''see.''"
proof -
  have h: "''footnote-anchor'' \<in> set [''footnote-anchor'']" by simp
  have m1: "re_search_digits ''#footnote-'' ''https://x.example/p/post#footnote-12'' = Some ''12''"
    by code_simp
  have m2: "re_search_digits ''#footnote-'' ''#fn-12'' = None"
    by code_simp
  have g: "get_text_content (Element ''p'' [] [] [Text ''see'']) [] 1 = ''see''"
    "get_text_content (Element ''p'' [] [] [Text ''.'']) [] 1 = ''.''"
    by simp_all
  from footnote_anchor_rendering [OF h, of "''p''" "[]" "[]" "[Text ''see'']"
      "[(''href'', ''https://x.example/p/post#footnote-12'')]" "[Text ''12'']" "[Text ''.'']" "[]" 1
      "''https://x.example/p/post#footnote-12''" "''12''"]
    footnote_anchor_rendering [OF h, of "''p''" "[]" "[]" "[Text ''see'']"
      "[(''href'', ''#fn-12'')]" "[Text ''12'']" "[Text ''.'']" "[]" 1 "''#fn-12''" "''12''"]
    h m1 m2 g
  show ?thesis by simp
qed

text \<open>
  C3, as amended. The element transducer raises on a node exactly when it hands the
  footnote handler a division whose numeral has more than 4300 digits, and then the
  error is the \<open>ValueError\<close> of \<open>int()\<close>; on every other node it returns a result. The
  conversion raises exactly when a top-level child does. An element of an unrecognised
  kind gives no output; a blockquote without paragraph children gives the empty block;
  an image-container division without an image leaf gives no output. The registry is
  unchanged in these cases.
\<close>

theorem transducer_result:
  "(raises_value_error e \<longrightarrow> process_element e refs c = Inl ValueError) \<and>
   (\<not> raises_value_error e \<longrightarrow> (\<exists>res refs'. process_element e refs c = Inr (res, refs'))) \<and>
   ((\<exists>x \<in> set soup. raises_value_error x) \<longrightarrow>
      convert_html_to_markdown soup ttl sub = Inl ValueError) \<and>
   (\<not> (\<exists>x \<in> set soup. raises_value_error x) \<longrightarrow>
      (\<exists>out. convert_html_to_markdown soup ttl sub = Inr out)) \<and>
   (n \<notin> {''h1'', ''h2'', ''h3'', ''p'', ''blockquote'', ''div''} \<longrightarrow>
      process_element (Element n a cl cs) refs c = Inr (None, refs)) \<and>
   (filter (is_tag ''p'') cs = [] \<longrightarrow>
      process_element (Element ''blockquote'' a cl cs) refs c = Inr (Some [], refs)) \<and>
   (''captioned-image-container'' \<in> set cl \<and> find_tag ''img'' (Element ''div'' a cl cs) = None \<longrightarrow>
      process_element (Element ''div'' a cl cs) refs c = Inr (None, refs))"
proof (intro conjI)
  show "raises_value_error e \<longrightarrow> process_element e refs c = Inl ValueError"
    using process_element_props(1) [of "\<lambda>r. True" e refs c] by blast
next
  show "\<not> raises_value_error e \<longrightarrow> (\<exists>res refs'. process_element e refs c = Inr (res, refs'))"
    using process_element_props(1) [of "\<lambda>r. True" e refs c] by blast
next
  show "(\<exists>x \<in> set soup. raises_value_error x) \<longrightarrow>
      convert_html_to_markdown soup ttl sub = Inl ValueError"
    using convert_shape [of soup] by blast
next
  show "\<not> (\<exists>x \<in> set soup. raises_value_error x) \<longrightarrow>
      (\<exists>out. convert_html_to_markdown soup ttl sub = Inr out)"
    using convert_shape [of soup] by blast
next
  show "n \<notin> {''h1'', ''h2'', ''h3'', ''p'', ''blockquote'', ''div''} \<longrightarrow>
      process_element (Element n a cl cs) refs c = Inr (None, refs)"
    by simp
next
  show "filter (is_tag ''p'') cs = [] \<longrightarrow>
      process_element (Element ''blockquote'' a cl cs) refs c = Inr (Some [], refs)"
    by simp
next
  show "''captioned-image-container'' \<in> set cl \<and> find_tag ''img'' (Element ''div'' a cl cs) = None \<longrightarrow>
      process_element (Element ''div'' a cl cs) refs c = Inr (None, refs)"
    by (simp add: handle_image_def)
qed

text \<open>
  C3 as stated fails: on a footnote-definition division whose numeral has 4301 digits
  the transducer, and with it the conversion, raises.
\<close>

theorem long_numeral_counterexample:
  "process_element long_numeral_div [] 1 = Inl ValueError \<and>
   convert_html_to_markdown [long_numeral_div] None None = Inl ValueError"
proof -
  have "handle_footnote_definition long_numeral_div [] 1 = Inl ValueError"
    using long_numeral_div_too_long by (simp add: handle_footnote_definition_eq)
  then have p: "process_element long_numeral_div [] 1 = Inl ValueError"
    by (simp add: long_numeral_div_def fn_div_def)
  then have "process_top [long_numeral_div] (header_lines None None, [], 1) = Inl ValueError"
    by (simp add: long_numeral_div_def fn_div_def del: process_element.simps)
  with p show ?thesis by (simp add: convert_html_to_markdown_def)
qed

theorem transducer_result_witness:
  "raises_value_error long_numeral_div \<and>
   process_element long_numeral_div [] 1 = Inl ValueError \<and>
   (\<exists>x \<in> set [long_numeral_div]. raises_value_error x) \<and>
   convert_html_to_markdown [long_numeral_div] None None = Inl ValueError \<and>
   \<not> raises_value_error (Element ''p'' [] [] [Text ''a'']) \<and>
   process_element (Element ''p'' [] [] [Text ''a'']) [] 1 = Inr (Some ''a'', []) \<and>
   \<not> (\<exists>x \<in> set [Element ''p'' [] [] [Text ''a'']]. raises_value_error x) \<and>
   convert_html_to_markdown [Element ''p'' [] [] [Text ''a'']] None None = Inr ''a'' \<and>
   ''span'' \<notin> {''h1'', ''h2'', ''h3'', ''p'', ''blockquote'', ''div''} \<and>
   process_element (Element ''span'' [] [''captioned-image-container''] [Text ''x'']) [] 1 = Inr (None, []) \<and>
   filter (is_tag ''p'') [Text ''x''] = [] \<and>
   process_element (Element ''blockquote'' [] [''captioned-image-container''] [Text ''x'']) [] 1 = Inr (Some [], []) \<and>
   ''captioned-image-container'' \<in> set [''captioned-image-container''] \<and>
   find_tag ''img'' (Element ''div'' [] [''captioned-image-container''] [Text ''x'']) = None \<and>
   process_element (Element ''div'' [] [''captioned-image-container''] [Text ''x'']) [] 1 = Inr (None, [])"
proof -
  have r1: "raises_value_error long_numeral_div"
    using long_numeral_div_too_long by (simp add: long_numeral_div_def fn_div_def)
  have r2: "\<exists>x \<in> set [long_numeral_div]. raises_value_error x" using r1 by simp
  have r3: "\<not> raises_value_error (Element ''p'' [] [] [Text ''a''])" by simp
  have r4: "\<not> (\<exists>x \<in> set [Element ''p'' [] [] [Text ''a'']]. raises_value_error x)" by simp
  have e1: "process_element (Element ''p'' [] [] [Text ''a'']) [] 1 = Inr (Some ''a'', [])"
    by code_simp
  have e2: "convert_html_to_markdown [Element ''p'' [] [] [Text ''a'']] None None = Inr ''a''"
    by code_simp
  have h1: "''span'' \<notin> {''h1'', ''h2'', ''h3'', ''p'', ''blockquote'', ''div''}" by simp
  have h2: "filter (is_tag ''p'') [Text ''x''] = []" by simp
  have h3: "''captioned-image-container'' \<in> set [''captioned-image-container'']" by simp
  have h4: "find_tag ''img'' (Element ''div'' [] [''captioned-image-container''] [Text ''x'']) = None"
    by (simp add: find_tag_def)
  from transducer_result [of long_numeral_div "[]" 1 "[long_numeral_div]" None None "''span''"
      "[]" "[''captioned-image-container'']" "[Text ''x'']"]
    transducer_result [of "Element ''p'' [] [] [Text ''a'']" "[]" 1
      "[Element ''p'' [] [] [Text ''a'']]" None None "''span''"
      "[]" "[''captioned-image-container'']" "[Text ''x'']"]
    r1 r2 r3 r4 e1 e2 h1 h2 h3 h4
  show ?thesis by blast
qed

text \<open>
  C1, as amended. When the registry is not empty after the top-level children are
  processed, its numerals are distinct, \<^const>\<open>footnote_lines\<close> lists one
  \<open>[^numeral]: content\<close> entry per registered numeral in strictly ascending numeric order,
  whatever the order of registration, and the output ends with these entries joined by a
  blank line and trimmed of trailing white space. The trimming changes the block only
  when the content of the last entry is empty.
\<close>

theorem footnote_block_sorted:
  assumes "process_top soup (header_lines ttl sub, [], 1) = Inr (markdown_lines, refs, c)"
    and "refs \<noteq> []"
  shows "sorted_wrt (<) (map fst (sort_key fst refs)) \<and>
         set (sort_key fst refs) = set refs \<and> distinct (map fst refs) \<and>
         (\<exists>out. convert_html_to_markdown soup ttl sub = Inr out \<and>
                py_endswith out (rstrip (py_join [CHR 0x0A, CHR 0x0A] (footnote_lines refs)))) \<and>
         (snd (last (sort_key fst refs)) \<noteq> [] \<longrightarrow>
            rstrip (py_join [CHR 0x0A, CHR 0x0A] (footnote_lines refs)) =
            py_join [CHR 0x0A, CHR 0x0A] (footnote_lines refs))"
proof -
  have nr: "\<not> (\<exists>x \<in> set soup. raises_value_error x)"
  proof
    assume "\<exists>x \<in> set soup. raises_value_error x"
    with convert_shape [of soup]
    have "process_top soup (header_lines ttl sub, [], 1) = Inl ValueError" by blast
    with assms(1) show False by simp
  qed
  with convert_shape [of soup] obtain body refs' where
    ok: "registry_ok refs'"
    and t: "\<And>l0 c. \<exists>c'. process_top soup (l0, [], c) = Inr (l0 @ body, refs', c')"
    and cv: "\<And>ttl sub. convert_html_to_markdown soup ttl sub =
        Inr (strip (py_join [CHR 0x0A, CHR 0x0A]
               (header_lines ttl sub @ body @ footer_lines refs')))"
    by blast
  from t [of "header_lines ttl sub" 1] assms(1) have eq: "refs' = refs" by auto
  have d: "distinct (map fst refs)" using ok eq by (simp add: registry_ok_def)
  have "sorted (map fst (sort_key fst refs))" by simp
  moreover have "distinct (map fst (sort_key fst refs))"
    using d by (simp add: map_sort_key)
  ultimately have s: "sorted_wrt (<) (map fst (sort_key fst refs))"
    by (simp add: strict_sorted_iff)
  have "convert_html_to_markdown soup ttl sub =
        Inr (strip (py_join [CHR 0x0A, CHR 0x0A] ((header_lines ttl sub @ body) @ footer_lines refs)))"
    using cv [of ttl sub] eq by simp
  then have e: "\<exists>out. convert_html_to_markdown soup ttl sub = Inr out \<and>
                py_endswith out (rstrip (py_join [CHR 0x0A, CHR 0x0A] (footnote_lines refs)))"
    unfolding assembled_with_footnotes [OF assms(2)]
    by (metis append.assoc py_endswith_append)
  have "snd (last (sort_key fst refs)) \<noteq> [] \<longrightarrow>
            rstrip (py_join [CHR 0x0A, CHR 0x0A] (footnote_lines refs)) =
            py_join [CHR 0x0A, CHR 0x0A] (footnote_lines refs)"
    using footnote_lines_rstrip [of refs] ok eq assms(2) by blast
  with s d e show ?thesis by simp
qed

theorem footnote_block_sorted_witness:
  "process_top footnotes_3_1_10_2 (header_lines None None, [], 1) =
     Inr ([''body''], [(3, ''three''), (1, ''one''), (10, ''ten''), (2, ''two'')], 1) \<and>
   [(3, ''three''), (1, ''one''), (10, ''ten''), (2 :: int, ''two'')] \<noteq> [] \<and>
   footnote_lines [(3, ''three''), (1, ''one''), (10, ''ten''), (2, ''two'')] =
     [''[^1]: one'', ''[^2]: two'', ''[^3]: three'', ''[^10]: ten''] \<and>
   convert_html_to_markdown footnotes_3_1_10_2 None None =
     Inr (''body'' @ [CHR 0x0A, CHR 0x0A, CHR 0x0A] @ ''---'' @ [CHR 0x0A, CHR 0x0A, CHR 0x0A] @
          py_join [CHR 0x0A, CHR 0x0A]
            [''[^1]: one'', ''[^2]: two'', ''[^3]: three'', ''[^10]: ten'']) \<and>
   sorted_wrt (<) (map fst (sort_key fst [(3, ''three''), (1, ''one''), (10, ''ten''), (2 :: int, ''two'')])) \<and>
   snd (last (sort_key fst [(3, ''three''), (1, ''one''), (10, ''ten''), (2 :: int, ''two'')])) \<noteq> []"
proof -
  have h1: "process_top footnotes_3_1_10_2 (header_lines None None, [], 1) =
     Inr ([''body''], [(3, ''three''), (1, ''one''), (10, ''ten''), (2, ''two'')], 1)"
    by code_simp
  have h2: "[(3, ''three''), (1, ''one''), (10, ''ten''), (2 :: int, ''two'')] \<noteq> []" by simp
  have e1: "footnote_lines [(3, ''three''), (1, ''one''), (10, ''ten''), (2, ''two'')] =
     [''[^1]: one'', ''[^2]: two'', ''[^3]: three'', ''[^10]: ten'']"
    by code_simp
  have e2: "convert_html_to_markdown footnotes_3_1_10_2 None None =
     Inr (''body'' @ [CHR 0x0A, CHR 0x0A, CHR 0x0A] @ ''---'' @ [CHR 0x0A, CHR 0x0A, CHR 0x0A] @
          py_join [CHR 0x0A, CHR 0x0A]
            [''[^1]: one'', ''[^2]: two'', ''[^3]: three'', ''[^10]: ten''])"
    by code_simp
  have e3: "snd (last (sort_key fst [(3, ''three''), (1, ''one''), (10, ''ten''), (2 :: int, ''two'')])) \<noteq> []"
    by simp
  from footnote_block_sorted [OF h1 h2] h1 h2 e1 e2 e3 show ?thesis by blast
qed

text \<open>
  C1 as stated fails: with a single footnote of empty content the last line of the
  output is \<open>[^1]:\<close>, not the entry \<open>[^1]: \<close>, whose trailing blank the final trim removes.
\<close>

theorem footnote_block_trailing_space_counterexample:
  "process_top [fn_div ''#footnote-anchor-1'' []] (header_lines None None, [], 1) =
     Inr ([], [(1, [])], 1) \<and>
   footnote_line 1 [] = ''[^1]: '' \<and>
   convert_html_to_markdown [fn_div ''#footnote-anchor-1'' []] None None =
     Inr (''---'' @ [CHR 0x0A, CHR 0x0A, CHR 0x0A] @ ''[^1]:'') \<and>
   \<not> py_endswith (''---'' @ [CHR 0x0A, CHR 0x0A, CHR 0x0A] @ ''[^1]:'') ''[^1]: ''"
  by code_simp

text \<open>
  C6, as amended. Whenever the conversion returns a string, that string is the trimmed
  join, by one blank line, of the header lines, the body blocks and the footer lines;
  it neither begins nor ends with white space. The footer's first block is the
  separator with a newline on either side, so when the registry is not empty the \<open>---\<close>
  line is followed by two blank lines and then by the footnote entries, and two blank
  lines precede it after the last block before.
\<close>

theorem output_layout:
  assumes "convert_html_to_markdown soup ttl sub = Inr out"
  shows "\<exists>body refs c.
     process_top soup ([], [], 1) = Inr (body, refs, c) \<and>
     out = strip (py_join [CHR 0x0A, CHR 0x0A] (header_lines ttl sub @ body @ footer_lines refs)) \<and>
     (out \<noteq> [] \<longrightarrow> \<not> py_isspace (hd out) \<and> \<not> py_isspace (last out)) \<and>
     (refs \<noteq> [] \<longrightarrow>
        out = lstrip ((if header_lines ttl sub @ body = [] then []
                       else py_join [CHR 0x0A, CHR 0x0A] (header_lines ttl sub @ body) @
                            [CHR 0x0A, CHR 0x0A]) @ [CHR 0x0A]) @
              (''---'' @ [CHR 0x0A, CHR 0x0A, CHR 0x0A]) @
              rstrip (py_join [CHR 0x0A, CHR 0x0A] (footnote_lines refs)))"
proof -
  have nr: "\<not> (\<exists>x \<in> set soup. raises_value_error x)"
  proof
    assume "\<exists>x \<in> set soup. raises_value_error x"
    with convert_shape [of soup]
    have "convert_html_to_markdown soup ttl sub = Inl ValueError" by blast
    with assms show False by simp
  qed
  with convert_shape [of soup] obtain body refs where
    t: "\<And>l0 c. \<exists>c'. process_top soup (l0, [], c) = Inr (l0 @ body, refs, c')"
    and cv: "\<And>ttl sub. convert_html_to_markdown soup ttl sub =
        Inr (strip (py_join [CHR 0x0A, CHR 0x0A]
               (header_lines ttl sub @ body @ footer_lines refs)))"
    by blast
  from t [of "[]" 1] obtain c where p: "process_top soup ([], [], 1) = Inr (body, refs, c)"
    by auto
  have out_def:
    "out = strip (py_join [CHR 0x0A, CHR 0x0A] (header_lines ttl sub @ body @ footer_lines refs))"
    using cv [of ttl sub] assms by simp
  have 2: "out \<noteq> [] \<longrightarrow> \<not> py_isspace (hd out) \<and> \<not> py_isspace (last out)"
    unfolding out_def using strip_no_outer_space by blast
  have 3: "refs \<noteq> [] \<longrightarrow>
        out = lstrip ((if header_lines ttl sub @ body = [] then []
                       else py_join [CHR 0x0A, CHR 0x0A] (header_lines ttl sub @ body) @
                            [CHR 0x0A, CHR 0x0A]) @ [CHR 0x0A]) @
              (''---'' @ [CHR 0x0A, CHR 0x0A, CHR 0x0A]) @
              rstrip (py_join [CHR 0x0A, CHR 0x0A] (footnote_lines refs))"
    using assembled_with_footnotes [of refs "header_lines ttl sub @ body"]
    by (simp add: out_def)
  from 2 3 p out_def show ?thesis by blast
qed

text \<open>
  C6 as stated fails: a paragraph and one footnote give two blank lines on either side
  of the separator line, not one.
\<close>

theorem single_blank_line_counterexample:
  "convert_html_to_markdown para_and_footnote None None =
     Inr (''a'' @ [CHR 0x0A, CHR 0x0A, CHR 0x0A] @ ''---'' @ [CHR 0x0A, CHR 0x0A, CHR 0x0A] @ ''[^1]: n'') \<and>
   ''a'' @ [CHR 0x0A, CHR 0x0A, CHR 0x0A] @ ''---'' @ [CHR 0x0A, CHR 0x0A, CHR 0x0A] @ ''[^1]: n'' \<noteq>
     py_join [CHR 0x0A, CHR 0x0A] [''a'', ''---'', ''[^1]: n'']"
  by code_simp


theorem output_layout_witness:
  "convert_html_to_markdown para_and_footnote (Some ''T'') (Some ''S'') =
     Inr (''# T'' @ [CHR 0x0A, CHR 0x0A] @ ''*S*'' @ [CHR 0x0A, CHR 0x0A] @ ''---'' @
          [CHR 0x0A, CHR 0x0A] @ ''a'' @ [CHR 0x0A, CHR 0x0A, CHR 0x0A] @ ''---'' @
          [CHR 0x0A, CHR 0x0A, CHR 0x0A] @ ''[^1]: n'') \<and>
   process_top para_and_footnote ([], [], 1) = Inr ([''a''], [(1, ''n'')], 1) \<and>
   [(1 :: int, ''n'')] \<noteq> [] \<and> \<not> py_isspace (CHR ''#'') \<and> \<not> py_isspace (CHR ''n'')"
proof -
  have e1: "convert_html_to_markdown para_and_footnote (Some ''T'') (Some ''S'') =
     Inr (''# T'' @ [CHR 0x0A, CHR 0x0A] @ ''*S*'' @ [CHR 0x0A, CHR 0x0A] @ ''---'' @
          [CHR 0x0A, CHR 0x0A] @ ''a'' @ [CHR 0x0A, CHR 0x0A, CHR 0x0A] @ ''---'' @
          [CHR 0x0A, CHR 0x0A, CHR 0x0A] @ ''[^1]: n'')"
    by code_simp
  have e2: "process_top para_and_footnote ([], [], 1) = Inr ([''a''], [(1, ''n'')], 1)"
    by code_simp
  have e3: "\<not> py_isspace (CHR ''#'') \<and> \<not> py_isspace (CHR ''n'')"
    by (simp add: py_isspace_def)
  from output_layout [OF e1] e1 e2 e3
  show ?thesis by simp
qed

text \<open>
  C9, at a table whose first post of the quarter has no Markdown file: both rows fall
  into 2025-Q1 in date order, the first is skipped, and the second, the only post
  written, is preceded by a separator, where the join of the written posts has none.
\<close>

theorem stray_separator_when_first_post_missing:
  "load_posts_by_quarter parse_year_month rows_ex = Inr [(''2025-Q1'', rows_ex)] \<and>
   map_of markdown_dir_ex ''101.first'' = None \<and>
   write_posts markdown_dir_ex rows_ex 1 [] = post_separator @ ''Second post'' \<and>
   quarter_file markdown_dir_ex ''2025-Q1'' rows_ex =
     quarter_header ''2025-Q1'' 2 @ post_separator @ ''Second post'' \<and>
   post_separator @ ''Second post'' \<noteq> py_join post_separator [''Second post'']"
  by code_simp

end
